theory Spec2Isabelle
  imports Complex_Main
begin

section \<open>Utilities of App.jsx\<close>

text \<open>
  JavaScript numbers are modelled as \<^typ>\<open>real\<close>: every number the coaching loop handles
  is produced by arithmetic on slider values and on values of \<^verbatim>\<open>Math.random()\<close>, so no
  \<^verbatim>\<open>NaN\<close> or infinity arises. The rounding of double arithmetic is not modelled, so a
  computed value may differ from the program's in the last digits. The integer counters (\<^verbatim>\<open>t\<close>, \<^verbatim>\<open>time\<close>) are \<^typ>\<open>int\<close>.
  Strings are byte strings; the three non-ASCII characters of the coach messages are
  written as their UTF-8 bytes.
\<close>

definition clamp :: "real \<Rightarrow> real \<Rightarrow> real \<Rightarrow> real" where
  \<comment> \<open>\<^verbatim>\<open>const clamp = (v, lo, hi) => Math.max(lo, Math.min(hi, v))\<close>\<close>
  "clamp v lo hi = max lo (min hi v)"

definition rnd :: "real \<Rightarrow> real \<Rightarrow> real \<Rightarrow> real" where
  \<comment> \<open>\<^verbatim>\<open>rnd(m, v) = m + (Math.random() - 0.5) * 2 * v\<close>; the first argument is the value
      that the call of \<^verbatim>\<open>Math.random()\<close> returned.\<close>
  "rnd r m v = m + (r - 0.5) * 2 * v"

definition em_dash :: string where
  "em_dash = [CHR 0xE2, CHR 0x80, CHR 0x94]"

definition nb_hyphen :: string where
  "nb_hyphen = [CHR 0xE2, CHR 0x80, CHR 0x91]"

definition bullet :: string where
  "bullet = [CHR 0xE2, CHR 0x80, CHR 0xA2]"

fun str_includes :: "string \<Rightarrow> string \<Rightarrow> bool" where
  \<comment> \<open>\<^verbatim>\<open>s.includes(sub)\<close>\<close>
  "str_includes [] sub = (sub = [])"
| "str_includes (c # cs) sub = (take (length sub) (c # cs) = sub \<or> str_includes cs sub)"

fun show_nat :: "nat \<Rightarrow> string" where
  "show_nat n =
     (if n < 10 then [''0123456789'' ! n]
      else show_nat (n div 10) @ [''0123456789'' ! (n mod 10)])"

definition show_int :: "int \<Rightarrow> string" where
  \<comment> \<open>\<^verbatim>\<open>String(n)\<close> of an integral number\<close>
  "show_int i = (if i < 0 then ''-'' @ show_nat (nat (- i)) else show_nat (nat i))"

definition Math_round :: "real \<Rightarrow> int" where
  "Math_round x = \<lfloor>x + 1 / 2\<rfloor>"

definition toFixed :: "nat \<Rightarrow> real \<Rightarrow> string" where
  \<comment> \<open>\<^verbatim>\<open>x.toFixed(d)\<close>: the sign, then the nearest multiple of \<open>10\<^sup>-\<^sup>d\<close>
      (the larger one on a tie), with \<open>d\<close> digits after the point.\<close>
  "toFixed d x =
     (let a = \<bar>x\<bar>;
          n = nat \<lfloor>a * 10 ^ d + 1 / 2\<rfloor>;
          whole = show_nat (n div 10 ^ d);
          frac = show_nat (n mod 10 ^ d);
          body = (if d = 0 then whole
                  else whole @ ''.'' @ replicate (d - length frac) CHR ''0'' @ frac)
      in if x < 0 then ''-'' @ body else body)"

section \<open>State of the App component\<close>

record user_model =
  name :: string
  hrRest :: real
  rrRest :: real
  tremorBase :: real
  gripMax :: real
  smoothnessBase :: real

definition defaultUserModel :: user_model where
  "defaultUserModel =
     \<lparr>name = ''Demo User'', hrRest = 72, rrRest = 12, tremorBase = 0.15,
      gripMax = 60, smoothnessBase = 0.7\<rparr>"

record sensors =
  tpuForearm :: bool
  tpuBicep :: bool
  tpuShoulder :: bool
  forcePads :: bool
  imu :: bool
  ppg :: bool
  resp_sensor :: bool
  haptic :: bool

record params =
  tremorWarn :: real
  tremorRest :: real
  smoothMin :: real
  gripTarget :: real
  hrCeiling :: real
  rrCeiling :: real
  difficulty :: real

text \<open>One record of the stream: \<^verbatim>\<open>{ t, smooth, tremor, strain, emgEnv, fsr, resp, grip, hr, rr }\<close>.\<close>

record sample =
  t :: int
  smooth :: real
  tremor :: real
  strain :: "real list"
  emgEnv :: real
  fsr :: "real list"
  resp :: real
  grip :: real
  hr :: real
  rr :: real

text \<open>One line of the event log, with the keys in the order the object literal gives them.\<close>

record log_note =
  ts :: string
  note_mode :: string
  msg :: string
  note_smooth :: string
  note_tremor :: string
  note_grip :: string
  note_hr :: int
  note_rr :: int

record app_state =
  running :: bool
  time :: int
  user :: user_model
  sensors :: sensors
  params :: params
  stream :: "sample list"
  message :: string
  mode :: string
  notes_list :: "log_note list"

definition initial_state :: app_state where
  "initial_state =
     \<lparr>running = False, time = 0, user = defaultUserModel,
      sensors = \<lparr>tpuForearm = True, tpuBicep = True, tpuShoulder = True, forcePads = True,
                 imu = True, ppg = True, resp_sensor = True, haptic = True\<rparr>,
      params = \<lparr>tremorWarn = 0.35, tremorRest = 0.55, smoothMin = 0.45, gripTarget = 18,
                hrCeiling = 120, rrCeiling = 20, difficulty = 1.0\<rparr>,
      stream = [], message = ''Coach idle. Press Start.'', mode = ''IDLE'', notes_list = []\<rparr>"

section \<open>Coaching policy\<close>

text \<open>
  The rule chain of the policy effect. \<^verbatim>\<open>nextMode\<close> starts as the current mode and
  \<^verbatim>\<open>coach\<close> as the empty string; each of the four branches assigns both.
\<close>

definition coaching_rules :: "bool \<Rightarrow> sensors \<Rightarrow> params \<Rightarrow> string \<Rightarrow> sample \<Rightarrow> string \<times> string" where
  "coaching_rules run sens p md lst =
     (let nextMode = md; coach = (''''::string) in
      if (ppg sens \<and> hr lst > hrCeiling p) \<or> (resp_sensor sens \<and> rr lst > rrCeiling p)
      then (''REST'', ''Heart/resp high '' @ em_dash @ '' pause and breathe'')
      else if tpuForearm sens \<and> tremor lst > tremorRest p
      then (''REST'', ''Tremor elevated '' @ em_dash @ '' guided rest'')
      else if run
      then (''COACHING'',
            if smooth lst < smoothMin p then ''Slow down, lengthen exhale''
            else if \<bar>grip lst - gripTarget p\<bar> > 8 then ''Match both hands gently''
            else if tremor lst > tremorWarn p
            then ''Micro'' @ nb_hyphen @ ''break: shake out wrist''
            else ''Nice form '' @ em_dash @ '' adding tiny challenge'')
      else (''IDLE'', ''Coach idle. Press Start.''))"

definition haptic_suffix :: "sensors \<Rightarrow> string \<times> string \<Rightarrow> string \<times> string" where
  "haptic_suffix sens mc =
     (case mc of (nextMode, coach) \<Rightarrow>
        if haptic sens \<and> nextMode \<noteq> ''IDLE''
        then (nextMode, coach @ '' '' @ bullet @ '' Haptic cue: 200 ms pulse'')
        else (nextMode, coach))"

definition policy_decision :: "bool \<Rightarrow> sensors \<Rightarrow> params \<Rightarrow> string \<Rightarrow> sample \<Rightarrow> string \<times> string" where
  "policy_decision run sens p md lst = haptic_suffix sens (coaching_rules run sens p md lst)"

definition make_note :: "string \<Rightarrow> string \<Rightarrow> string \<Rightarrow> sample \<Rightarrow> log_note" where
  "make_note now nextMode coach lst =
     \<lparr>ts = now, note_mode = nextMode, msg = coach,
      note_smooth = toFixed 2 (smooth lst), note_tremor = toFixed 2 (tremor lst),
      note_grip = toFixed 1 (grip lst),
      note_hr = Math_round (hr lst), note_rr = Math_round (rr lst)\<rparr>"

text \<open>
  One run of the policy effect. \<open>now\<close> is the text \<^verbatim>\<open>new Date().toISOString()\<close> returns.
  With an empty stream \<^verbatim>\<open>last\<close> is undefined and the effect returns at once.
\<close>

definition policy_effect :: "string \<Rightarrow> app_state \<Rightarrow> app_state" where
  "policy_effect now s =
     (case stream s of
        [] \<Rightarrow> s
      | _ # _ \<Rightarrow>
          (let lst = last (stream s);
               mc = policy_decision (running s) (sensors s) (params s) (mode s) lst;
               nextMode = fst mc;
               coach = snd mc;
               s1 = s\<lparr>mode := nextMode, message := coach\<rparr>
           in if length (stream s) mod 15 = 0 \<or> str_includes coach ''pause'' \<or> str_includes coach ''Nice''
              then s1\<lparr>notes_list := notes_list s @ [make_note now nextMode coach lst]\<rparr>
              else s1))"

definition start :: "app_state \<Rightarrow> app_state" where
  "start s = s\<lparr>running := True\<rparr>"

definition stop :: "app_state \<Rightarrow> app_state" where
  "stop s = s\<lparr>running := False, mode := ''IDLE'', message := ''Coach idle. Press Start.''\<rparr>"

definition reset :: "app_state \<Rightarrow> app_state" where
  "reset s = s\<lparr>stream := [], notes_list := [], time := 0\<rparr>"

definition setSensors :: "sensors \<Rightarrow> app_state \<Rightarrow> app_state" where
  "setSensors x s = s\<lparr>sensors := x\<rparr>"

definition setParams :: "params \<Rightarrow> app_state \<Rightarrow> app_state" where
  "setParams p s = s\<lparr>params := p\<rparr>"

section \<open>Signal synthesis\<close>

text \<open>
  The record built by the updater passed to \<^verbatim>\<open>setStream\<close>. \<open>rand i\<close> is the value returned
  by the \<open>i\<close>-th call of \<^verbatim>\<open>Math.random()\<close> made while the record is built (thirteen calls,
  in the order of the source text). The user model, the parameters, the sensor toggles and
  the mode are the ones held by the closure of the interval callback.
\<close>

definition synth_record ::
  "(nat \<Rightarrow> real) \<Rightarrow> user_model \<Rightarrow> params \<Rightarrow> sensors \<Rightarrow> string \<Rightarrow> sample list \<Rightarrow> sample" where
  "synth_record rand usr p sens md arr =
     (let t1 = (if length arr \<noteq> 0 then t (last arr) + 1 else 0);
          smooth1 = clamp (rnd (rand 0) (smoothnessBase usr) 0.15 * difficulty p) 0 1;
          tremor1 = clamp (rnd (rand 1) (tremorBase usr) 0.2 * (1.15 - smooth1)) 0 1;
          strain1 = [clamp (rnd (rand 2) 0.46 0.08) 0 1,
                     clamp (rnd (rand 3) 0.52 0.08) 0 1,
                     clamp (rnd (rand 4) 0.58 0.08) 0 1];
          emgEnv1 = clamp (rnd (rand 5) 0.35 0.12 * (if smooth1 < 0.55 then 1.2 else 0.9)) 0 1;
          grip1 = clamp (rnd (rand 6) (gripTarget p) 6
                         * (if forcePads sens then 1 else 0)
                         * (if md = ''REST'' then 0.6 else 1))
                    0 (gripMax usr);
          fsr1 = [clamp (grip1 * 0.45 + rnd (rand 7) 4 2) 0 (gripMax usr / 2),
                  clamp (grip1 * 0.35 + rnd (rand 8) 3 2) 0 (gripMax usr / 2),
                  clamp (rnd (rand 9) 16 6) 0 45];
          hr1 = clamp (rnd (rand 10)
                         (hrRest usr + difficulty p * 25 * (if smooth1 < 0.55 then 1 else 0.6)) 4)
                  50 200;
          rr1 = clamp (rnd (rand 11) (rrRest usr + (hr1 - hrRest usr) / 20) 1.4) 6 35;
          resp1 = clamp (rnd (rand 12) 0.55 0.1 * (rr1 / 18)) 0 1.2
      in \<lparr>t = t1, smooth = smooth1, tremor = tremor1, strain = strain1, emgEnv = emgEnv1,
          fsr = fsr1, resp = resp1, grip = grip1, hr = hr1, rr = rr1\<rparr>)"

definition slice_last :: "nat \<Rightarrow> 'a list \<Rightarrow> 'a list" where
  \<comment> \<open>\<^verbatim>\<open>arr.slice(-n)\<close> for \<open>n > 0\<close>: the last \<open>n\<close> elements, all of them when there are fewer\<close>
  "slice_last n arr = drop (length arr - n) arr"

definition setStream_updater ::
  "(nat \<Rightarrow> real) \<Rightarrow> user_model \<Rightarrow> params \<Rightarrow> sensors \<Rightarrow> string \<Rightarrow> sample list \<Rightarrow> sample list" where
  "setStream_updater rand usr p sens md arr =
     slice_last 180 arr @ [synth_record rand usr p sens md arr]"

text \<open>
  One firing of the interval callback. The effect that installs the callback depends on
  \<^verbatim>\<open>running\<close>, \<^verbatim>\<open>params.difficulty\<close>, \<^verbatim>\<open>sensors.forcePads\<close>, \<^verbatim>\<open>mode\<close> and \<^verbatim>\<open>user\<close>, so
  the callback sees the current values of these; \<^verbatim>\<open>params.gripTarget\<close> is not a dependency,
  and the callback reads the value \<open>g\<close> it had when the effect last ran.
\<close>

definition synth_tick :: "(nat \<Rightarrow> real) \<Rightarrow> real \<Rightarrow> app_state \<Rightarrow> app_state" where
  "synth_tick rand g s =
     s\<lparr>time := time s + 1,
       stream := setStream_updater rand (user s) ((params s)\<lparr>gripTarget := g\<rparr>)
                   (sensors s) (mode s) (stream s)\<rparr>"

text \<open>
  The states of the component: Start is enabled while the simulator is stopped, Pause
  while it runs, and the interval fires only while it runs.
\<close>

inductive reachable :: "app_state \<Rightarrow> bool" where
  r_init: "reachable initial_state"
| r_start: "reachable s \<Longrightarrow> \<not> running s \<Longrightarrow> reachable (start s)"
| r_stop: "reachable s \<Longrightarrow> running s \<Longrightarrow> reachable (stop s)"
| r_reset: "reachable s \<Longrightarrow> reachable (reset s)"
| r_tick: "reachable s \<Longrightarrow> running s \<Longrightarrow> reachable (synth_tick rand g s)"
| r_policy: "reachable s \<Longrightarrow> reachable (policy_effect now s)"
| r_sensors: "reachable s \<Longrightarrow> reachable (setSensors x s)"
| r_params: "reachable s \<Longrightarrow> reachable (setParams p s)"

definition modes :: "string set" where
  "modes = {''IDLE'', ''COACHING'', ''REST''}"

section \<open>Sensor layout editor (LayoutPane)\<close>










section \<open>CSV export\<close>

text \<open>
  A row is an object: its own properties in enumeration order, each value a string or an
  integral number. \<^verbatim>\<open>Array.prototype.join\<close> turns each value into its string.
\<close>

datatype jsval = Str string | Num int

type_synonym row = "(string \<times> jsval) list"

fun val_str :: "jsval \<Rightarrow> string" where
  "val_str (Str s) = s"
| "val_str (Num i) = show_int i"

definition Object_keys :: "row \<Rightarrow> string list" where
  "Object_keys r = map fst r"

definition Object_values :: "row \<Rightarrow> jsval list" where
  "Object_values r = map snd r"

fun join :: "string \<Rightarrow> string list \<Rightarrow> string" where
  "join sep [] = []"
| "join sep [x] = x"
| "join sep (x # y # ys) = x @ sep @ join sep (y # ys)"

definition newline :: string where
  "newline = [CHR 0x0A]"

definition csv_header :: "row list \<Rightarrow> string" where
  \<comment> \<open>\<^verbatim>\<open>Object.keys(rows[0] || {}).join(",")\<close>\<close>
  "csv_header rows = join '','' (Object_keys (case rows of [] \<Rightarrow> [] | r # _ \<Rightarrow> r))"

definition csv_lines :: "row list \<Rightarrow> string list" where
  \<comment> \<open>\<^verbatim>\<open>rows.map((r) => Object.values(r).join(","))\<close>\<close>
  "csv_lines rows = map (\<lambda>r. join '','' (map val_str (Object_values r))) rows"

definition csv_text :: "row list \<Rightarrow> string" where
  "csv_text rows = join newline (csv_header rows # csv_lines rows)"

text \<open>The download \<^verbatim>\<open>exportCSV\<close> triggers: the file name and the text of the blob.\<close>

definition exportCSV :: "row list \<Rightarrow> string \<Rightarrow> string \<times> string" where
  "exportCSV rows filename = (filename, csv_text rows)"

definition note_row :: "log_note \<Rightarrow> row" where
  "note_row n =
     [(''ts'', Str (ts n)), (''mode'', Str (note_mode n)), (''msg'', Str (msg n)),
      (''smooth'', Str (note_smooth n)), (''tremor'', Str (note_tremor n)),
      (''grip'', Str (note_grip n)), (''hr'', Num (note_hr n)), (''rr'', Num (note_rr n))]"

definition onExport :: "app_state \<Rightarrow> (string \<times> string) option" where
  \<comment> \<open>\<^verbatim>\<open>notes.length && exportCSV(notes)\<close>\<close>
  "onExport s =
     (if length (notes_list s) = 0 then None
      else Some (exportCSV (map note_row (notes_list s)) ''coaching_log.csv''))"

text \<open>The lines of a text: \<^verbatim>\<open>text.split("\n")\<close>.\<close>

fun split_lines :: "string \<Rightarrow> string list" where
  "split_lines [] = [[]]"
| "split_lines (c # cs) =
     (if c = CHR 0x0A then [] # split_lines cs
      else (case split_lines cs of [] \<Rightarrow> [[c]] | l # ls \<Rightarrow> (c # l) # ls))"

definition no_newline :: "string \<Rightarrow> bool" where
  "no_newline s = (CHR 0x0A \<notin> set s)"

section \<open>The stand-in renderer (three-lite)\<close>

record vec3 =
  vx :: real
  vy :: real
  vz :: real

record box_geometry =
  width :: real
  height :: real
  depth :: real

record material =
  color :: nat
  roughness :: real

text \<open>
  An object is a \<^verbatim>\<open>Mesh\<close>, with a geometry and a material that may be missing, or any other
  \<^verbatim>\<open>Object3D\<close> (group, scene, light, grid, camera). The fields are those the constructor of
  \<^verbatim>\<open>Object3D\<close> sets.
\<close>

datatype obj_kind = Mesh "box_geometry option" "material option" | Other

datatype obj3d =
  Object3D (position: vec3) (rotation: vec3) (children: "obj3d list") (visible: bool)
    (kind: obj_kind)

text \<open>The calls made on the 2D context, in order.\<close>

datatype canvas_op =
    ClearRect real real real real
  | Save
  | Restore
  | Translate real real
  | Rotate real
  | Scale real real
  | SetFillStyle string
  | SetStrokeStyle string
  | SetLineWidth real
  | BeginPath
  | RoundRect real real real real real
  | Fill
  | Stroke

fun show_hex :: "nat \<Rightarrow> string" where
  "show_hex n =
     (if n < 16 then [''0123456789abcdef'' ! n]
      else show_hex (n div 16) @ [''0123456789abcdef'' ! (n mod 16)])"

definition padStart :: "nat \<Rightarrow> char \<Rightarrow> string \<Rightarrow> string" where
  "padStart n c s = replicate (n - length s) c @ s"

definition colorToCss :: "nat \<Rightarrow> string" where
  "colorToCss hex = ''#'' @ padStart 6 CHR ''0'' (show_hex hex)"

definition render_scale :: real where
  "render_scale = 60"

definition or_one :: "real option \<Rightarrow> real" where
  \<comment> \<open>\<^verbatim>\<open>v || 1\<close> for a number that may be missing\<close>
  "or_one v = (case v of None \<Rightarrow> 1 | Some w \<Rightarrow> if w = 0 then 1 else w)"

definition paint_mesh :: "box_geometry option \<Rightarrow> material option \<Rightarrow> canvas_op list" where
  "paint_mesh g m =
     (let w = or_one (map_option width g) * render_scale;
          h = or_one (map_option height g) * render_scale
      in [SetFillStyle (colorToCss (case m of None \<Rightarrow> 0x888888 | Some mt \<Rightarrow> color mt)),
          SetStrokeStyle ''rgba(15,23,42,0.15)'',
          SetLineWidth 2,
          BeginPath,
          RoundRect (- w / 2) (- h / 2) w h 6,
          Fill,
          Stroke])"

fun drawObject :: "obj3d \<Rightarrow> canvas_op list" where
  "drawObject (Object3D pos rot ch vis k) =
     (if \<not> vis then []
      else [Save, Translate (vx pos * render_scale) (- vy pos * render_scale + vz pos * 5)]
           @ (if vz rot \<noteq> 0 then [Rotate (vz rot)] else [])
           @ (if vx rot \<noteq> 0 then [Scale 1 (cos (vx rot))] else [])
           @ (if vy rot \<noteq> 0 then [Scale (cos (vy rot)) 1] else [])
           @ (case k of Mesh g m \<Rightarrow> paint_mesh g m | Other \<Rightarrow> [])
           @ concat (map drawObject ch)
           @ [Restore])"

text \<open>The canvas of the renderer; \<^verbatim>\<open>getContext("2d")\<close> may have returned \<^verbatim>\<open>null\<close>.\<close>

record renderer =
  canvas_width :: real
  canvas_height :: real
  has_ctx :: bool

definition render :: "renderer \<Rightarrow> obj3d \<Rightarrow> canvas_op list" where
  "render r scene =
     (if \<not> has_ctx r then []
      else [ClearRect 0 0 (canvas_width r) (canvas_height r), Save,
            Translate (canvas_width r / 2) (canvas_height r * 0.6)]
           @ concat (map drawObject (children scene))
           @ [Restore])"

subsection \<open>What the scene graph says is on display\<close>

text \<open>
  A path is a list of child indices. \<open>subobject o p\<close> is the object reached from \<open>o\<close> along
  \<open>p\<close>; \<open>visible_below o p\<close> says that every object on the path strictly below \<open>o\<close>, the
  target included, has its \<^verbatim>\<open>visible\<close> flag set; \<open>all_paths o\<close> lists the paths of \<open>o\<close> in
  the order of a depth-first walk.
\<close>

fun subobject :: "obj3d \<Rightarrow> nat list \<Rightarrow> obj3d option" where
  "subobject obj [] = Some obj"
| "subobject obj (i # p) =
     (if i < length (children obj) then subobject (children obj ! i) p else None)"

fun visible_below :: "obj3d \<Rightarrow> nat list \<Rightarrow> bool" where
  "visible_below obj [] = True"
| "visible_below obj (i # p) =
     (i < length (children obj) \<and> visible (children obj ! i)
      \<and> visible_below (children obj ! i) p)"

fun all_paths :: "obj3d \<Rightarrow> nat list list"
  and child_paths :: "nat \<Rightarrow> obj3d list \<Rightarrow> nat list list" where
  "all_paths (Object3D pos rot ch vis k) = [] # child_paths 0 ch"
| "child_paths i [] = []"
| "child_paths i (c # cs) = map ((#) i) (all_paths c) @ child_paths (Suc i) cs"

definition is_paint :: "canvas_op \<Rightarrow> bool" where
  \<comment> \<open>the calls that put a shape on the canvas, as opposed to the transform bookkeeping\<close>
  "is_paint c =
     (case c of SetFillStyle _ \<Rightarrow> True | SetStrokeStyle _ \<Rightarrow> True | SetLineWidth _ \<Rightarrow> True
      | BeginPath \<Rightarrow> True | RoundRect _ _ _ _ _ \<Rightarrow> True | Fill \<Rightarrow> True | Stroke \<Rightarrow> True
      | _ \<Rightarrow> False)"

definition mesh_paint :: "obj3d \<Rightarrow> canvas_op list" where
  "mesh_paint obj = (case kind obj of Mesh g m \<Rightarrow> paint_mesh g m | Other \<Rightarrow> [])"

definition shown_at :: "obj3d \<Rightarrow> nat list \<Rightarrow> obj3d list" where
  \<comment> \<open>the mesh at path \<open>p\<close>, when there is one and the path below \<open>obj\<close> is visible\<close>
  "shown_at obj p =
     (case subobject obj p of
        None \<Rightarrow> []
      | Some m \<Rightarrow> if kind m \<noteq> Other \<and> visible_below obj p then [m] else [])"

definition shown_meshes :: "obj3d \<Rightarrow> obj3d list" where
  \<comment> \<open>the meshes strictly below the scene whose path below the scene is visible\<close>
  "shown_meshes scene = concat (map (shown_at scene) (filter (\<lambda>p. p \<noteq> []) (all_paths scene)))"

definition shown_from :: "obj3d \<Rightarrow> obj3d list" where
  \<comment> \<open>the meshes at or below \<open>obj\<close> whose path below \<open>obj\<close> is visible\<close>
  "shown_from obj = concat (map (shown_at obj) (all_paths obj))"

section \<open>Predicates on the stream\<close>

fun consecutive_t :: "sample list \<Rightarrow> bool" where
  "consecutive_t (a # b # xs) = (t b = t a + 1 \<and> consecutive_t (b # xs))"
| "consecutive_t _ = True"

definition in_bounds :: "sample \<Rightarrow> bool" where
  "in_bounds x =
     (0 \<le> smooth x \<and> smooth x \<le> 1 \<and> 0 \<le> tremor x \<and> tremor x \<le> 1 \<and>
      0 \<le> grip x \<and> grip x \<le> 60 \<and> 50 \<le> hr x \<and> hr x \<le> 200 \<and>
      6 \<le> rr x \<and> rr x \<le> 35)"

section \<open>Concrete inputs\<close>

definition sample_a :: sample where
  "sample_a =
     \<lparr>t = 0, smooth = 0.7, tremor = 0.1, strain = [0.46, 0.52, 0.58], emgEnv = 0.3,
      fsr = [10, 8, 16], resp = 0.5, grip = 18, hr = 130, rr = 14\<rparr>"

definition sample_b :: sample where
  "sample_b =
     \<lparr>t = 7, smooth = 0.2, tremor = 0.9, strain = [0.4, 0.5, 0.6], emgEnv = 0.4,
      fsr = [1, 2, 3], resp = 0.6, grip = 40, hr = 60, rr = 8\<rparr>"

definition state_a :: app_state where
  "state_a = (start initial_state)\<lparr>stream := [sample_a]\<rparr>"

definition state_a2 :: app_state where
  "state_a2 = state_a\<lparr>stream := [sample_b, sample_a], mode := ''COACHING'', time := 9\<rparr>"

definition half :: "nat \<Rightarrow> real" where
  "half i = 1 / 2"

definition three_quarters :: "nat \<Rightarrow> real" where
  "three_quarters i = 3 / 4"

definition half13 :: "nat \<Rightarrow> real" where
  "half13 i = (if i < 13 then 1 / 2 else 0)"

definition state_b :: app_state where
  "state_b = synth_tick half 18 (start initial_state)"





definition rows_a :: "row list" where
  "rows_a = [[(''ts'', Str ''t0''), (''hr'', Num 130)], [(''ts'', Str ''t1''), (''hr'', Num 87)]]"

definition origin :: vec3 where
  "origin = \<lparr>vx = 0, vy = 0, vz = 0\<rparr>"

definition cube :: obj3d where
  "cube =
     Object3D origin origin []
       True (Mesh (Some \<lparr>width = 0.4, height = 0.4, depth = 0.4\<rparr>)
                  (Some \<lparr>color = 0xeb5f5f, roughness = 0.5\<rparr>))"

definition thigh :: obj3d where
  "thigh =
     Object3D \<lparr>vx = 0, vy = 0.6, vz = 0\<rparr> origin []
       True (Mesh (Some \<lparr>width = 0.4, height = 1.2, depth = 0.4\<rparr>)
                  (Some \<lparr>color = 0x22c55e, roughness = 0.5\<rparr>))"

definition leg_hidden :: obj3d where
  "leg_hidden = Object3D \<lparr>vx = 0.8, vy = - 0.6, vz = 0\<rparr> origin [thigh] False Other"

definition scene_a :: obj3d where
  "scene_a = Object3D origin origin [leg_hidden, cube] True Other"

definition scene_hidden :: obj3d where
  "scene_hidden = Object3D origin origin [cube] False Other"

definition canvas_a :: renderer where
  "canvas_a = \<lparr>canvas_width = 640, canvas_height = 360, has_ctx = True\<rparr>"

definition canvas_no_ctx :: renderer where
  "canvas_no_ctx = \<lparr>canvas_width = 640, canvas_height = 360, has_ctx = False\<rparr>"

section \<open>The coaching policy\<close>

lemma policy_effect_nonempty:
  "stream s \<noteq> [] \<Longrightarrow>
   mode (policy_effect now s) =
     fst (policy_decision (running s) (sensors s) (params s) (mode s) (last (stream s))) \<and>
   message (policy_effect now s) =
     snd (policy_decision (running s) (sensors s) (params s) (mode s) (last (stream s)))"
  by (cases "stream s") (simp_all add: policy_effect_def Let_def)

lemma policy_effect_empty: "stream s = [] \<Longrightarrow> policy_effect now s = s"
  by (simp add: policy_effect_def)

lemma policy_effect_stream: "stream (policy_effect now s) = stream s"
  by (cases "stream s") (simp_all add: policy_effect_def Let_def)

lemma policy_effect_user: "user (policy_effect now s) = user s"
  by (cases "stream s") (simp_all add: policy_effect_def Let_def)

lemma fst_policy_decision:
  "fst (policy_decision run sens p md lst) = fst (coaching_rules run sens p md lst)"
  by (simp add: policy_decision_def haptic_suffix_def split: prod.splits)

lemma fst_coaching_rules_modes: "fst (coaching_rules run sens p md lst) \<in> modes"
  by (simp add: coaching_rules_def modes_def)

lemma policy_effect_mode: "mode s \<in> modes \<Longrightarrow> mode (policy_effect now s) \<in> modes"
  by (cases "stream s = []")
     (simp_all add: policy_effect_empty policy_effect_nonempty fst_policy_decision
        fst_coaching_rules_modes)

lemma policy_decision_indep_mode:
  "policy_decision run sens p md lst = policy_decision run sens p md' lst"
  by (simp add: policy_decision_def coaching_rules_def)

lemma reachable_state_b: "reachable state_b"
  unfolding state_b_def
  by (intro reachable.intros) (simp_all add: initial_state_def start_def)

text \<open>
  C1. A policy step taken with a latest sample present decides the next mode by threshold
  comparisons in this order: \<^verbatim>\<open>REST\<close> when the PPG sensor is enabled and the sample's
  \<^verbatim>\<open>hr\<close> exceeds \<^verbatim>\<open>hrCeiling\<close>, or the resp sensor is enabled and its \<^verbatim>\<open>rr\<close> exceeds
  \<^verbatim>\<open>rrCeiling\<close>; otherwise \<^verbatim>\<open>REST\<close> when the tpuForearm sensor is enabled and its
  \<^verbatim>\<open>tremor\<close> exceeds \<^verbatim>\<open>tremorRest\<close>; otherwise \<^verbatim>\<open>COACHING\<close> when the simulator is
  running and \<^verbatim>\<open>IDLE\<close> when it is not.
\<close>

theorem policy_next_mode:
  assumes "stream s \<noteq> []"
  shows "mode (policy_effect now s) =
     (let lst = last (stream s) in
      if (ppg (sensors s) \<and> hr lst > hrCeiling (params s)) \<or>
         (resp_sensor (sensors s) \<and> rr lst > rrCeiling (params s)) then ''REST''
      else if tpuForearm (sensors s) \<and> tremor lst > tremorRest (params s) then ''REST''
      else if running s then ''COACHING'' else ''IDLE'')"
  using policy_effect_nonempty [OF assms, of now]
  by (simp add: fst_policy_decision coaching_rules_def Let_def)

theorem policy_next_mode_witness:
  "stream state_a \<noteq> [] \<and> mode (policy_effect ''2024-01-01T00:00:00.000Z'' state_a) = ''REST''"
  using policy_next_mode [of state_a "''2024-01-01T00:00:00.000Z''"]
  by (simp add: state_a_def sample_a_def start_def initial_state_def)

text \<open>
  C2. At every reachable state of the coaching state machine the mode is one of
  \<^verbatim>\<open>IDLE\<close>, \<^verbatim>\<open>COACHING\<close> and \<^verbatim>\<open>REST\<close>: the initial mode is \<^verbatim>\<open>IDLE\<close>, and the policy step,
  stop, reset and start each map a mode in this set to a mode in this set.
\<close>

theorem mode_invariant:
  "mode initial_state = ''IDLE'' \<and>
   (mode s \<in> modes \<longrightarrow>
      mode (policy_effect now s) \<in> modes \<and> mode (stop s) \<in> modes \<and>
      mode (reset s) \<in> modes \<and> mode (start s) \<in> modes) \<and>
   (reachable s \<longrightarrow> mode s \<in> modes)"
proof -
  have "reachable s \<Longrightarrow> mode s \<in> modes"
  proof (induction rule: reachable.induct)
    case r_init
    show ?case by (simp add: initial_state_def modes_def)
  next
    case (r_policy s now)
    then show ?case by (simp add: policy_effect_mode)
  qed (simp_all add: start_def stop_def reset_def synth_tick_def setSensors_def setParams_def
        modes_def)
  moreover have "mode initial_state = ''IDLE''"
    by (simp add: initial_state_def)
  moreover have "mode (stop s) \<in> modes"
    by (simp add: stop_def modes_def)
  moreover have "mode (reset s) = mode s" "mode (start s) = mode s"
    by (simp_all add: reset_def start_def)
  ultimately show ?thesis
    by (simp add: policy_effect_mode)
qed

theorem mode_invariant_witness:
  "reachable state_b \<and> mode state_b \<in> modes \<and>
   mode (policy_effect ''2024-01-01T00:00:01.000Z'' state_b) = ''COACHING'' \<and>
   ''COACHING'' \<in> modes"
proof -
  have m: "mode (policy_effect ''2024-01-01T00:00:01.000Z'' state_b) = ''COACHING''"
    by (simp add: policy_effect_def policy_decision_def haptic_suffix_def coaching_rules_def
        state_b_def synth_tick_def setStream_updater_def slice_last_def synth_record_def
        Let_def start_def initial_state_def defaultUserModel_def rnd_def clamp_def half_def)
  show ?thesis
    using mode_invariant [of state_b "''2024-01-01T00:00:01.000Z''"] reachable_state_b m
    by simp
qed

text \<open>
  C3. The decision of the policy depends only on the latest record of the stream together
  with the sensor toggles, the policy parameters and the running flag: for two non-empty
  streams with equal last records the policy step computes the same next mode and the same
  coach message, the haptic-cue suffix included.
\<close>

theorem policy_depends_on_last:
  assumes "stream s1 \<noteq> []" and "stream s2 \<noteq> []"
    and "last (stream s1) = last (stream s2)"
    and "sensors s1 = sensors s2" and "params s1 = params s2" and "running s1 = running s2"
  shows "mode (policy_effect now1 s1) = mode (policy_effect now2 s2) \<and>
         message (policy_effect now1 s1) = message (policy_effect now2 s2)"
  using assms
    policy_decision_indep_mode [of "running s2" "sensors s2" "params s2" "mode s1"
      "last (stream s2)" "mode s2"]
  by (simp add: policy_effect_nonempty)

theorem policy_depends_on_last_witness:
  "stream state_a \<noteq> [] \<and> stream state_a2 \<noteq> [] \<and> stream state_a \<noteq> stream state_a2 \<and>
   last (stream state_a) = last (stream state_a2) \<and>
   sensors state_a = sensors state_a2 \<and> params state_a = params state_a2 \<and>
   running state_a = running state_a2 \<and>
   mode (policy_effect ''x'' state_a) = mode (policy_effect ''y'' state_a2) \<and>
   message (policy_effect ''x'' state_a) = message (policy_effect ''y'' state_a2)"
proof -
  have h: "stream state_a \<noteq> []" "stream state_a2 \<noteq> []" "stream state_a \<noteq> stream state_a2"
    "last (stream state_a) = last (stream state_a2)"
    "sensors state_a = sensors state_a2" "params state_a = params state_a2"
    "running state_a = running state_a2"
    by (simp_all add: state_a_def state_a2_def)
  show ?thesis
    using h policy_depends_on_last [OF h(1) h(2) h(4) h(5) h(6) h(7), of "''x''" "''y''"]
    by simp
qed

text \<open>
  C7. Coaching events are appended only to the in-memory list of notes: a policy step leaves
  the list as it is or appends one entry, and no other operation touches it. Reset empties
  the signal stream and the event log and sets the elapsed time to zero, and leaves the
  policy parameters, the sensor toggles, the mode and the message unchanged, also after the
  policy effect that the emptied stream triggers.
\<close>

theorem reset_frame:
  "stream (reset s) = [] \<and> notes_list (reset s) = [] \<and> time (reset s) = 0 \<and>
   params (reset s) = params s \<and> sensors (reset s) = sensors s \<and>
   mode (reset s) = mode s \<and> message (reset s) = message s \<and>
   running (reset s) = running s \<and> user (reset s) = user s \<and>
   policy_effect now (reset s) = reset s \<and>
   (notes_list (policy_effect now s) = notes_list s \<or>
    (\<exists>n. notes_list (policy_effect now s) = notes_list s @ [n])) \<and>
   notes_list (synth_tick rand g s) = notes_list s \<and>
   notes_list (start s) = notes_list s \<and> notes_list (stop s) = notes_list s \<and>
   notes_list (setSensors x s) = notes_list s \<and> notes_list (setParams p s) = notes_list s"
  by (cases "stream s")
     (simp_all add: reset_def policy_effect_def Let_def synth_tick_def start_def stop_def
        setSensors_def setParams_def)

theorem reset_frame_witness:
  "stream (reset state_a2) = [] \<and> notes_list (reset state_a2) = [] \<and>
   time state_a2 = 9 \<and> time (reset state_a2) = 0 \<and>
   mode (reset state_a2) = ''COACHING'' \<and>
   message (reset state_a2) = ''Coach idle. Press Start.'' \<and>
   length (notes_list (policy_effect ''x'' state_a2)) = 1"
proof -
  have "notes_list state_a2 = []" "time state_a2 = 9" "mode state_a2 = ''COACHING''"
    "message state_a2 = ''Coach idle. Press Start.''"
    by (simp_all add: state_a2_def state_a_def start_def initial_state_def)
  moreover have "notes_list (policy_effect ''x'' state_a2) \<noteq> notes_list state_a2"
    by (simp add: policy_effect_def policy_decision_def haptic_suffix_def coaching_rules_def
        Let_def state_a2_def state_a_def sample_a_def start_def initial_state_def em_dash_def)
  ultimately show ?thesis
    using reset_frame [of state_a2 "''x''" half 18 "sensors state_a2" "params state_a2"]
    by auto
qed

section \<open>The synthesis loop\<close>

lemma clamp_bounds: "lo \<le> hi \<Longrightarrow> lo \<le> clamp v lo hi \<and> clamp v lo hi \<le> hi"
  by (simp add: clamp_def)

lemma synth_record_in_bounds: "in_bounds (synth_record rand defaultUserModel p sens md arr)"
  by (simp add: in_bounds_def synth_record_def Let_def defaultUserModel_def clamp_bounds)

lemma synth_record_t:
  "t (synth_record rand usr p sens md arr) = (if arr = [] then 0 else t (last arr) + 1)"
  by (simp add: synth_record_def Let_def)

lemma length_slice_last: "length (slice_last n arr) \<le> n"
  by (simp add: slice_last_def)

lemma slice_last_Nil_iff: "0 < n \<Longrightarrow> slice_last n arr = [] \<longleftrightarrow> arr = []"
  by (cases arr) (simp_all add: slice_last_def)

lemma last_slice_last: "0 < n \<Longrightarrow> arr \<noteq> [] \<Longrightarrow> last (slice_last n arr) = last arr"
  by (simp add: slice_last_def)

lemma set_slice_last: "set (slice_last n arr) \<subseteq> set arr"
  by (simp add: slice_last_def set_drop_subset)

lemma consecutive_t_tl: "consecutive_t (x # xs) \<Longrightarrow> consecutive_t xs"
  by (cases xs) simp_all

lemma consecutive_t_drop: "consecutive_t xs \<Longrightarrow> consecutive_t (drop n xs)"
proof (induction n arbitrary: xs)
  case 0
  then show ?case by simp
next
  case (Suc n)
  then show ?case by (cases xs) (auto dest: consecutive_t_tl)
qed

lemma consecutive_t_snoc:
  "consecutive_t xs \<Longrightarrow> (xs \<noteq> [] \<Longrightarrow> t r = t (last xs) + 1) \<Longrightarrow> consecutive_t (xs @ [r])"
proof (induction xs rule: consecutive_t.induct)
  case (1 a b xs)
  then show ?case by simp
qed simp_all

lemma consecutive_t_updater:
  assumes "consecutive_t arr"
  shows "consecutive_t (setStream_updater rand usr p sens md arr)"
  unfolding setStream_updater_def
proof (rule consecutive_t_snoc)
  show "consecutive_t (slice_last 180 arr)"
    using assms by (simp add: slice_last_def consecutive_t_drop)
next
  assume "slice_last 180 arr \<noteq> []"
  then have "arr \<noteq> []" by (simp add: slice_last_Nil_iff)
  then show "t (synth_record rand usr p sens md arr) = t (last (slice_last 180 arr)) + 1"
    by (simp add: synth_record_t last_slice_last)
qed

lemma length_updater: "length (setStream_updater rand usr p sens md arr) \<le> 181"
  using length_slice_last [of 180 arr] by (simp add: setStream_updater_def)

lemma last_updater:
  "last (setStream_updater rand usr p sens md arr) = synth_record rand usr p sens md arr"
  by (simp add: setStream_updater_def)

lemma reachable_stream: "reachable s \<Longrightarrow> length (stream s) \<le> 181 \<and> consecutive_t (stream s)"
proof (induction rule: reachable.induct)
  case r_init
  show ?case by (simp add: initial_state_def)
next
  case (r_tick s rand g)
  then show ?case by (simp add: synth_tick_def length_updater consecutive_t_updater)
next
  case (r_policy s now)
  then show ?case by (simp add: policy_effect_stream)
qed (simp_all add: start_def stop_def reset_def setSensors_def setParams_def)

lemma reachable_user: "reachable s \<Longrightarrow> user s = defaultUserModel"
proof (induction rule: reachable.induct)
  case r_init
  show ?case by (simp add: initial_state_def)
next
  case (r_policy s now)
  then show ?case by (simp add: policy_effect_user)
qed (simp_all add: start_def stop_def reset_def setSensors_def setParams_def synth_tick_def)

lemma reachable_in_bounds: "reachable s \<Longrightarrow> x \<in> set (stream s) \<Longrightarrow> in_bounds x"
proof (induction arbitrary: x rule: reachable.induct)
  case r_init
  then show ?case by (simp add: initial_state_def)
next
  case (r_tick s rand g)
  from r_tick.prems have "x = synth_record rand (user s) ((params s)\<lparr>gripTarget := g\<rparr>)
        (sensors s) (mode s) (stream s) \<or> x \<in> set (stream s)"
    using set_slice_last [of 180 "stream s"]
    by (auto simp add: synth_tick_def setStream_updater_def)
  then show ?case
    using r_tick.IH r_tick.hyps(1) by (auto simp add: reachable_user synth_record_in_bounds)
next
  case (r_policy s now)
  then show ?case by (simp add: policy_effect_stream)
qed (simp_all add: start_def stop_def reset_def setSensors_def setParams_def)

lemma synth_record_cong:
  assumes "\<forall>i<13. rand1 i = rand2 i"
    and "difficulty p1 = difficulty p2" and "gripTarget p1 = gripTarget p2"
    and "forcePads sens1 = forcePads sens2"
    and "(md1 = ''REST'') = (md2 = ''REST'')"
    and "(arr1 = [] \<and> arr2 = []) \<or> (arr1 \<noteq> [] \<and> arr2 \<noteq> [] \<and> t (last arr1) = t (last arr2))"
  shows "synth_record rand1 usr p1 sens1 md1 arr1 = synth_record rand2 usr p2 sens2 md2 arr2"
proof -
  have r: "rand1 0 = rand2 0" "rand1 1 = rand2 1" "rand1 2 = rand2 2" "rand1 3 = rand2 3"
    "rand1 4 = rand2 4" "rand1 5 = rand2 5" "rand1 6 = rand2 6" "rand1 7 = rand2 7"
    "rand1 8 = rand2 8" "rand1 9 = rand2 9" "rand1 10 = rand2 10" "rand1 11 = rand2 11"
    "rand1 12 = rand2 12"
    using assms(1) by simp_all
  show ?thesis
    using assms(2-) unfolding synth_record_def Let_def r by auto
qed

text \<open>
  C4, as the code has it. \<^verbatim>\<open>Math.random()\<close> takes no seed and the program holds none, so
  the state does not determine the samples. What a tick appends is a function of three
  things: the state, the value \<open>g\<close> of \<^verbatim>\<open>params.gripTarget\<close> that the closure of the interval
  callback holds (the dependency list of the effect omits it, so \<open>g\<close> may be an earlier slider
  value than the one in the state), and the thirteen values \<^verbatim>\<open>Math.random()\<close> returns during
  the tick. Two ticks from the same state, with the same held \<open>g\<close>, that draw the same
  thirteen values produce the same state, stream included.
\<close>

theorem tick_deterministic_in_draws:
  assumes "\<forall>i<13. rand1 i = rand2 i"
  shows "synth_tick rand1 g s = synth_tick rand2 g s"
  using synth_record_cong [OF assms, of "(params s)\<lparr>gripTarget := g\<rparr>"
      "(params s)\<lparr>gripTarget := g\<rparr>" "sensors s" "sensors s" "mode s" "mode s"
      "stream s" "stream s" "user s"]
  by (simp add: synth_tick_def setStream_updater_def)

theorem tick_deterministic_in_draws_witness:
  "half 0 = half13 0 \<and> half 12 = half13 12 \<and> half 13 \<noteq> half13 13 \<and>
   synth_tick half 18 (start initial_state) = synth_tick half13 18 (start initial_state) \<and>
   grip (last (stream (synth_tick half 18 (start initial_state)))) = 18 \<and>
   grip (last (stream (synth_tick half 40 (start initial_state)))) = 40"
proof -
  have h: "\<forall>i<13. half i = half13 i"
    by (simp add: half_def half13_def)
  have n: "half 13 \<noteq> half13 13"
    by (simp add: half_def half13_def)
  have g: "grip (last (stream (synth_tick half 18 (start initial_state)))) = 18"
    "grip (last (stream (synth_tick half 40 (start initial_state)))) = 40"
    by (simp_all add: synth_tick_def setStream_updater_def synth_record_def Let_def
        start_def initial_state_def defaultUserModel_def rnd_def clamp_def half_def)
  show ?thesis
    using h n g tick_deterministic_in_draws [OF h, of 18 "start initial_state"] by simp
qed

text \<open>
  C4, as the claim states it: two runs of the synthesis loop from the same state produce the
  same samples. The state of the program holds no seed, and two ticks from the same state,
  with the same held \<^verbatim>\<open>gripTarget\<close>, in which \<^verbatim>\<open>Math.random()\<close> returns different values
  append different records: grip 21 when every draw is 3/4, grip 18 when every draw is 1/2.
\<close>

theorem unseeded_counterexample:
  "stream (synth_tick three_quarters 18 (start initial_state))
     \<noteq> stream (synth_tick half 18 (start initial_state)) \<and>
   grip (last (stream (synth_tick three_quarters 18 (start initial_state)))) = 21 \<and>
   grip (last (stream (synth_tick half 18 (start initial_state)))) = 18"
  by (simp add: synth_tick_def setStream_updater_def slice_last_def synth_record_def Let_def
      start_def initial_state_def defaultUserModel_def rnd_def clamp_def three_quarters_def
      half_def)

text \<open>
  C5. After every synthesis tick the stream holds at most 181 records, and the \<^verbatim>\<open>t\<close> of the
  appended record is the \<^verbatim>\<open>t\<close> of the previous last record plus one (0 when the stream was
  empty); hence the \<^verbatim>\<open>t\<close> values stored in the stream of a reachable state are consecutive
  integers.
\<close>

theorem stream_window:
  "length (stream (synth_tick rand g s)) \<le> 181 \<and>
   t (last (stream (synth_tick rand g s))) =
     (if stream s = [] then 0 else t (last (stream s)) + 1) \<and>
   (consecutive_t (stream s) \<longrightarrow> consecutive_t (stream (synth_tick rand g s))) \<and>
   (reachable s \<longrightarrow> length (stream s) \<le> 181 \<and> consecutive_t (stream s))"
  by (simp add: synth_tick_def length_updater last_updater synth_record_t consecutive_t_updater
      reachable_stream)

theorem stream_window_witness:
  "reachable state_b \<and> consecutive_t (stream state_b) \<and>
   length (stream (synth_tick half 18 state_b)) \<le> 181 \<and>
   t (last (stream state_b)) = 0 \<and>
   t (last (stream (synth_tick half 18 state_b))) = 1 \<and>
   consecutive_t (stream (synth_tick half 18 state_b))"
proof -
  have "stream state_b \<noteq> []" "t (last (stream state_b)) = 0"
    by (simp_all add: state_b_def synth_tick_def setStream_updater_def synth_record_def Let_def
        start_def initial_state_def)
  then show ?thesis
    using stream_window [of half 18 state_b] reachable_state_b by simp
qed

text \<open>
  C6. Every sample the synthesis loop produces satisfies the clamp bounds, whatever jitter is
  drawn: \<open>0 \<le> smooth \<le> 1\<close>, \<open>0 \<le> tremor \<le> 1\<close>, \<open>0 \<le> grip \<le> 60\<close> (the user's
  \<^verbatim>\<open>gripMax\<close>), \<open>50 \<le> hr \<le> 200\<close> and \<open>6 \<le> rr \<le> 35\<close>; so does every record in the
  stream of a reachable state.
\<close>

theorem sample_bounds:
  "in_bounds (synth_record rand defaultUserModel p sens md arr) \<and>
   (reachable s \<longrightarrow> list_all in_bounds (stream s))"
  by (auto simp add: synth_record_in_bounds list_all_iff reachable_in_bounds)

theorem sample_bounds_witness:
  "reachable state_b \<and> list_all in_bounds (stream state_b) \<and>
   grip (last (stream state_b)) = 18 \<and> hr (last (stream state_b)) = 87"
proof -
  have "grip (last (stream state_b)) = 18" "hr (last (stream state_b)) = 87"
    by (simp_all add: state_b_def synth_tick_def setStream_updater_def synth_record_def Let_def
        start_def initial_state_def defaultUserModel_def rnd_def clamp_def half_def)
  then show ?thesis
    using sample_bounds [of half "params state_b" "sensors state_b" "mode state_b"
        "stream state_b" state_b] reachable_state_b
    by simp
qed

section \<open>The sensor layout editor\<close>









section \<open>CSV export\<close>

lemma join_Cons: "join sep (x # xs) = x @ concat (map (\<lambda>l. sep @ l) xs)"
  by (induction xs arbitrary: x) simp_all

lemma split_lines_plain: "no_newline s \<Longrightarrow> split_lines s = [s]"
  by (induction s) (auto simp add: no_newline_def)

lemma split_lines_append:
  "no_newline x \<Longrightarrow> split_lines (x @ CHR 0x0A # rest) = x # split_lines rest"
  by (induction x) (auto simp add: no_newline_def)

lemma split_lines_join:
  "no_newline x \<Longrightarrow> list_all no_newline xs \<Longrightarrow> split_lines (join newline (x # xs)) = x # xs"
proof (induction xs arbitrary: x)
  case Nil
  then show ?case by (simp add: split_lines_plain)
next
  case (Cons y ys)
  then show ?case by (simp add: newline_def split_lines_append)
qed

lemma csv_text_eq:
  "csv_text rows = csv_header rows @ concat (map (\<lambda>l. newline @ l) (csv_lines rows))"
  by (simp add: csv_text_def join_Cons)

lemma csv_text_lines:
  "no_newline (csv_header rows) \<Longrightarrow> list_all no_newline (csv_lines rows) \<Longrightarrow>
   split_lines (csv_text rows) = csv_header rows # csv_lines rows"
  by (simp add: csv_text_def split_lines_join)

text \<open>
  C9. For a non-empty list of rows \<^verbatim>\<open>exportCSV\<close> builds a text with one header line, the
  comma-joined keys of the first row, followed by one line per row holding that row's
  comma-joined values, in row order; for the empty list the header is the empty string and
  there are no data lines. The lines of the text are exactly these when no key and no value
  contains a line break.
\<close>

theorem exportCSV_shape:
  "csv_header [] = '''' \<and> csv_lines [] = [] \<and> exportCSV [] f = (f, '''') \<and>
   csv_header (r # rs) = join '','' (map fst r) \<and>
   csv_lines rows = map (\<lambda>r. join '','' (map (\<lambda>kv. val_str (snd kv)) r)) rows \<and>
   exportCSV rows f = (f, csv_header rows @ concat (map (\<lambda>l. newline @ l) (csv_lines rows))) \<and>
   (no_newline (csv_header rows) \<and> list_all no_newline (csv_lines rows) \<longrightarrow>
      split_lines (snd (exportCSV rows f)) = csv_header rows # csv_lines rows)"
proof -
  have "csv_header [] = ''''" "csv_lines [] = []" "exportCSV [] f = (f, '''')"
    by (simp_all add: csv_header_def csv_lines_def csv_text_def exportCSV_def Object_keys_def)
  moreover have "csv_header (r # rs) = join '','' (map fst r)"
    by (simp add: csv_header_def Object_keys_def)
  moreover have "csv_lines rows = map (\<lambda>r. join '','' (map (\<lambda>kv. val_str (snd kv)) r)) rows"
    by (simp add: csv_lines_def Object_values_def comp_def)
  moreover have "exportCSV rows f =
      (f, csv_header rows @ concat (map (\<lambda>l. newline @ l) (csv_lines rows)))"
    by (simp add: exportCSV_def csv_text_eq)
  moreover have "no_newline (csv_header rows) \<and> list_all no_newline (csv_lines rows) \<longrightarrow>
      split_lines (snd (exportCSV rows f)) = csv_header rows # csv_lines rows"
    by (simp add: exportCSV_def csv_text_lines)
  ultimately show ?thesis by blast
qed

theorem exportCSV_shape_witness:
  "no_newline (csv_header rows_a) \<and> list_all no_newline (csv_lines rows_a) \<and>
   split_lines (snd (exportCSV rows_a ''coaching_log.csv'')) = [''ts,hr'', ''t0,130'', ''t1,87'']"
proof -
  have h: "csv_header rows_a = ''ts,hr''"
    by (simp add: csv_header_def Object_keys_def rows_a_def)
  have l: "csv_lines rows_a = [''t0,130'', ''t1,87'']"
    by (simp add: csv_lines_def Object_values_def rows_a_def show_int_def)
  have n: "no_newline (csv_header rows_a) \<and> list_all no_newline (csv_lines rows_a)"
    unfolding h l by (simp add: no_newline_def)
  from exportCSV_shape [of "''coaching_log.csv''" "hd rows_a" "tl rows_a" rows_a]
  have "no_newline (csv_header rows_a) \<and> list_all no_newline (csv_lines rows_a) \<longrightarrow>
      split_lines (snd (exportCSV rows_a ''coaching_log.csv'')) =
        csv_header rows_a # csv_lines rows_a"
    by blast
  with n have "split_lines (snd (exportCSV rows_a ''coaching_log.csv'')) =
      csv_header rows_a # csv_lines rows_a"
    by blast
  with n show ?thesis by (simp only: h l)
qed

section \<open>The stand-in renderer\<close>

lemma is_paint_paint_mesh: "filter is_paint (paint_mesh g m) = paint_mesh g m"
  by (simp add: paint_mesh_def Let_def is_paint_def)

lemma child_paths_nonempty: "[] \<notin> set (child_paths i ch)"
  by (induction ch arbitrary: i) auto

lemma filter_child_paths: "filter (\<lambda>p. p \<noteq> []) (child_paths i ch) = child_paths i ch"
  using child_paths_nonempty [of i ch] by (simp add: filter_id_conv) metis

lemma child_paths_member:
  "j < length ch \<Longrightarrow> q \<in> set (all_paths (ch ! j)) \<Longrightarrow> (i + j) # q \<in> set (child_paths i ch)"
proof (induction ch arbitrary: i j)
  case Nil
  then show ?case by simp
next
  case (Cons c cs)
  show ?case
  proof (cases j)
    case 0
    with Cons.prems show ?thesis by simp
  next
    case (Suc j')
    with Cons.prems Cons.IH [of j' "Suc i"] show ?thesis by simp
  qed
qed

lemma all_paths_complete: "subobject obj p = Some m \<Longrightarrow> p \<in> set (all_paths obj)"
proof (induction p arbitrary: obj)
  case Nil
  show ?case by (cases obj) simp
next
  case (Cons i p)
  then have i: "i < length (children obj)" and sub: "subobject (children obj ! i) p = Some m"
    by (simp_all split: if_splits)
  have "(0 + i) # p \<in> set (child_paths 0 (children obj))"
    using i Cons.IH [OF sub] by (rule child_paths_member)
  then show ?case by (cases obj) simp
qed

lemma shown_at_child:
  assumes "i < length (children obj)"
  shows "shown_at obj (i # p) =
           (if visible (children obj ! i) then shown_at (children obj ! i) p else [])"
  using assms by (simp add: shown_at_def split: option.splits)

lemma shown_child_paths:
  "children obj = pre @ ch \<Longrightarrow> length pre = i \<Longrightarrow>
   concat (map (shown_at obj) (child_paths i ch)) =
     concat (map (\<lambda>c. if visible c then shown_from c else []) ch)"
proof (induction ch arbitrary: i pre)
  case Nil
  then show ?case by simp
next
  case (Cons c cs)
  have ci: "i < length (children obj)" "children obj ! i = c"
    using Cons.prems by (simp_all add: nth_append)
  have here: "concat (map (shown_at obj) (map ((#) i) (all_paths c))) =
      (if visible c then shown_from c else [])"
    using ci by (simp add: shown_at_child shown_from_def comp_def)
  have rest: "concat (map (shown_at obj) (child_paths (Suc i) cs)) =
      concat (map (\<lambda>c. if visible c then shown_from c else []) cs)"
    using Cons.IH [of "pre @ [c]" "Suc i"] Cons.prems by simp
  show ?case using here rest by simp
qed

lemma shown_from_unfold:
  "shown_from obj =
     (if kind obj \<noteq> Other then [obj] else [])
     @ concat (map (\<lambda>c. if visible c then shown_from c else []) (children obj))"
proof (cases obj)
  case (Object3D pos rot ch vis k)
  have "concat (map (shown_at obj) (child_paths 0 ch)) =
      concat (map (\<lambda>c. if visible c then shown_from c else []) ch)"
    using shown_child_paths [of obj "[]" ch 0] Object3D by simp
  then show ?thesis
    using Object3D by (simp add: shown_from_def shown_at_def)
qed

lemma shown_meshes_unfold:
  "shown_meshes scene =
     concat (map (\<lambda>c. if visible c then shown_from c else []) (children scene))"
proof (cases scene)
  case (Object3D pos rot ch vis k)
  have "concat (map (shown_at scene) (child_paths 0 ch)) =
      concat (map (\<lambda>c. if visible c then shown_from c else []) ch)"
    using shown_child_paths [of scene "[]" ch 0] Object3D by simp
  then show ?thesis
    using Object3D by (simp add: shown_meshes_def filter_child_paths)
qed

lemma shown_meshes_iff:
  "m \<in> set (shown_meshes scene) \<longleftrightarrow>
     (\<exists>p. p \<noteq> [] \<and> subobject scene p = Some m \<and> kind m \<noteq> Other \<and> visible_below scene p)"
proof
  assume "m \<in> set (shown_meshes scene)"
  then obtain p where "p \<noteq> []" "m \<in> set (shown_at scene p)"
    by (auto simp add: shown_meshes_def)
  then show "\<exists>p. p \<noteq> [] \<and> subobject scene p = Some m \<and> kind m \<noteq> Other \<and> visible_below scene p"
    by (auto simp add: shown_at_def split: option.splits if_splits)
next
  assume "\<exists>p. p \<noteq> [] \<and> subobject scene p = Some m \<and> kind m \<noteq> Other \<and> visible_below scene p"
  then obtain p where p: "p \<noteq> []" "subobject scene p = Some m" "kind m \<noteq> Other"
      "visible_below scene p"
    by blast
  then have "p \<in> set (all_paths scene)" "m \<in> set (shown_at scene p)"
    by (simp_all add: all_paths_complete shown_at_def)
  with p(1) show "m \<in> set (shown_meshes scene)"
    by (auto simp add: shown_meshes_def)
qed

lemma concat_map_concat:
  "concat (map f (concat xss)) = concat (map (\<lambda>xs. concat (map f xs)) xss)"
  by (induction xss) simp_all

lemma paint_drawObject:
  "filter is_paint (drawObject obj) =
     (if visible obj then concat (map mesh_paint (shown_from obj)) else [])"
proof (induction obj)
  case (Object3D pos rot ch vis k)
  let ?o = "Object3D pos rot ch vis k"
  show ?case
  proof (cases vis)
    case False
    then show ?thesis by simp
  next
    case True
    have kids: "concat (map (\<lambda>c. filter is_paint (drawObject c)) ch) =
        concat (map (\<lambda>c. concat (map mesh_paint (if visible c then shown_from c else []))) ch)"
      using Object3D.IH by (intro arg_cong [where f = concat] map_cong) simp_all
    have self: "filter is_paint (case k of Mesh g m \<Rightarrow> paint_mesh g m | Other \<Rightarrow> []) =
        concat (map mesh_paint (if k \<noteq> Other then [?o] else []))"
      by (cases k) (simp_all add: is_paint_paint_mesh mesh_paint_def)
    have "filter is_paint (drawObject ?o) =
        filter is_paint (case k of Mesh g m \<Rightarrow> paint_mesh g m | Other \<Rightarrow> [])
        @ concat (map (\<lambda>c. filter is_paint (drawObject c)) ch)"
      using True by (simp add: is_paint_def filter_concat comp_def)
    also have "\<dots> = concat (map mesh_paint (if k \<noteq> Other then [?o] else []))
        @ concat (map mesh_paint
            (concat (map (\<lambda>c. if visible c then shown_from c else []) ch)))"
      unfolding self kids by (simp add: concat_map_concat comp_def)
    also have "\<dots> = concat (map mesh_paint (shown_from ?o))"
      using shown_from_unfold [of ?o] by simp
    finally show ?thesis using True by simp
  qed
qed

lemma paint_render:
  assumes "has_ctx r"
  shows "filter is_paint (render r scene) = concat (map mesh_paint (shown_meshes scene))"
proof -
  have "filter is_paint (render r scene) =
      concat (map (\<lambda>c. filter is_paint (drawObject c)) (children scene))"
    using assms by (simp add: render_def is_paint_def filter_concat comp_def)
  also have "\<dots> =
      concat (map (\<lambda>c. concat (map mesh_paint (if visible c then shown_from c else [])))
        (children scene))"
    by (intro arg_cong [where f = concat] map_cong) (simp_all add: paint_drawObject)
  also have "\<dots> = concat (map mesh_paint (shown_meshes scene))"
    by (simp add: shown_meshes_unfold concat_map_concat comp_def)
  finally show ?thesis .
qed

lemma drawObject_hidden: "\<not> visible obj \<Longrightarrow> drawObject obj = []"
  by (cases obj) simp

text \<open>
  C10, as the code has it. The stand-in renderer draws on a 2D canvas context. When the canvas
  has a context, the shapes \<^verbatim>\<open>render\<close> puts on it are, in depth-first order, one filled rounded
  rectangle for every mesh strictly below the scene that is visible and whose ancestors below
  the scene are all visible, and nothing else; an object below the scene whose \<^verbatim>\<open>visible\<close>
  flag is false contributes no call at all, its descendants included. The \<^verbatim>\<open>visible\<close> flag of
  the scene itself is not consulted, and without a context nothing is drawn.
\<close>

theorem render_paints_shown_meshes:
  "(has_ctx r \<longrightarrow>
      filter is_paint (render r scene) = concat (map mesh_paint (shown_meshes scene))) \<and>
   (\<not> has_ctx r \<longrightarrow> render r scene = []) \<and>
   (m \<in> set (shown_meshes scene) \<longleftrightarrow>
      (\<exists>p. p \<noteq> [] \<and> subobject scene p = Some m \<and> kind m \<noteq> Other \<and> visible_below scene p)) \<and>
   (\<not> visible obj \<longrightarrow> drawObject obj = []) \<and>
   (kind obj = Mesh g mt \<longrightarrow>
      (\<exists>style w h. mesh_paint obj =
         [SetFillStyle style, SetStrokeStyle ''rgba(15,23,42,0.15)'', SetLineWidth 2, BeginPath,
          RoundRect (- w / 2) (- h / 2) w h 6, Fill, Stroke]))"
proof -
  have "kind obj = Mesh g mt \<longrightarrow>
      (\<exists>style w h. mesh_paint obj =
         [SetFillStyle style, SetStrokeStyle ''rgba(15,23,42,0.15)'', SetLineWidth 2, BeginPath,
          RoundRect (- w / 2) (- h / 2) w h 6, Fill, Stroke])"
    by (simp add: mesh_paint_def paint_mesh_def Let_def)
  moreover have "\<not> has_ctx r \<longrightarrow> render r scene = []"
    by (simp add: render_def)
  moreover note shown_meshes_iff [of m scene]
  ultimately show ?thesis
    by (simp add: paint_render drawObject_hidden)
qed

theorem render_paints_shown_meshes_witness:
  "has_ctx canvas_a \<and> shown_meshes scene_a = [cube] \<and>
   subobject scene_a [0, 0] = Some thigh \<and> \<not> visible_below scene_a [0, 0] \<and>
   filter is_paint (render canvas_a scene_a) =
     [SetFillStyle ''#eb5f5f'', SetStrokeStyle ''rgba(15,23,42,0.15)'', SetLineWidth 2, BeginPath,
      RoundRect (- 12) (- 12) 24 24 6, Fill, Stroke]"
proof -
  have c: "has_ctx canvas_a"
    by (simp add: canvas_a_def)
  have s: "shown_meshes scene_a = [cube]"
    by (simp add: shown_meshes_def shown_at_def scene_a_def leg_hidden_def thigh_def cube_def)
  have t: "subobject scene_a [0, 0] = Some thigh" "\<not> visible_below scene_a [0, 0]"
    by (simp_all add: scene_a_def leg_hidden_def)
  have p: "mesh_paint cube =
     [SetFillStyle ''#eb5f5f'', SetStrokeStyle ''rgba(15,23,42,0.15)'', SetLineWidth 2, BeginPath,
      RoundRect (- 12) (- 12) 24 24 6, Fill, Stroke]"
    by (simp add: mesh_paint_def paint_mesh_def cube_def Let_def or_one_def render_scale_def
        colorToCss_def padStart_def)
  from render_paints_shown_meshes [of canvas_a scene_a cube cube]
  have "has_ctx canvas_a \<longrightarrow>
      filter is_paint (render canvas_a scene_a) = concat (map mesh_paint (shown_meshes scene_a))"
    by blast
  with c have "filter is_paint (render canvas_a scene_a) =
      concat (map mesh_paint (shown_meshes scene_a))"
    by blast
  then show ?thesis
    using c s t p by simp
qed

text \<open>
  C10, as the claim states it: nothing is drawn for an object whose \<^verbatim>\<open>visible\<close> flag is false,
  its descendants included, and every mesh whose ancestors are visible is drawn. A scene
  whose own flag is false still has its visible cube drawn; and on a canvas without a 2D
  context a visible cube under a visible scene is not drawn.
\<close>

theorem render_hidden_scene_counterexample:
  "\<not> visible scene_hidden \<and> subobject scene_hidden [0] = Some cube \<and>
   filter is_paint (render canvas_a scene_hidden) = mesh_paint cube \<and>
   mesh_paint cube \<noteq> [] \<and>
   visible scene_a \<and> subobject scene_a [1] = Some cube \<and> visible cube \<and>
   render canvas_no_ctx scene_a = []"
  by (simp add: scene_hidden_def scene_a_def cube_def canvas_a_def canvas_no_ctx_def render_def
      mesh_paint_def paint_mesh_def Let_def is_paint_def)

end
